theory Spec2Isabelle
  imports Complex_Main "HOL-Library.Multiset" "HOL-Library.Word"
begin

section \<open>Data model of namespace RecSys\<close>

text \<open>
  The C++ type \<^verbatim>\<open>double\<close> is modelled by the mathematical reals: rounding,
  overflow to infinity and NaN are outside the model, as they are outside the
  specification, which speaks of real numbers throughout. \<^verbatim>\<open>vector<T>\<close> is a
  list, \<^verbatim>\<open>pair<string, double>\<close> a HOL pair. The fields \<^verbatim>\<open>name\<close>, \<^verbatim>\<open>value\<close>,
  \<^verbatim>\<open>id\<close> and \<^verbatim>\<open>tags\<close> carry the name of their struct as a prefix: a field
  is a constant of the theory, and two structs share the name \<^verbatim>\<open>tags\<close>.
\<close>

record Tag =
  tag_name :: string
  tag_value :: real

record Work =
  work_id :: string
  work_tags :: "Tag list"
  viewCount :: real
  interactionTime :: real

record UserProfile =
  user_tags :: "Tag list"

record SimilarUser =
  user_id :: string
  similarity :: real
  likedWorks :: "string list"

record MetricsConfig =
  useMetrics :: bool
  weightViews :: real
  weightTime :: real
  weightTags :: real

type_synonym scored = "string \<times> real"

section \<open>cosineSimilarity\<close>

text \<open>The first loop of \<^verbatim>\<open>cosineSimilarity\<close>: \<^verbatim>\<open>normUser += tag.value * tag.value\<close>.\<close>

fun normUser_loop :: "Tag list \<Rightarrow> real \<Rightarrow> real" where
  "normUser_loop [] normUser = normUser"
| "normUser_loop (t # ts) normUser = normUser_loop ts (normUser + tag_value t * tag_value t)"

text \<open>
  The inner loop over the user's tags: the first tag with the name of the work's tag
  adds its product to \<^verbatim>\<open>dot\<close> and the \<^verbatim>\<open>break\<close> leaves the loop.
\<close>

fun utag_loop :: "Tag list \<Rightarrow> Tag \<Rightarrow> real \<Rightarrow> real" where
  "utag_loop [] t dot = dot"
| "utag_loop (u # us) t dot =
     (if tag_name u = tag_name t then dot + tag_value u * tag_value t
      else utag_loop us t dot)"

text \<open>The loop over the work's tags, carrying \<^verbatim>\<open>normWork\<close> and \<^verbatim>\<open>dot\<close>.\<close>

fun work_loop :: "Tag list \<Rightarrow> Tag list \<Rightarrow> real \<times> real \<Rightarrow> real \<times> real" where
  "work_loop us [] (normWork, dot) = (normWork, dot)"
| "work_loop us (t # ts) (normWork, dot) =
     work_loop us ts (normWork + tag_value t * tag_value t, utag_loop us t dot)"

definition cosineSimilarity :: "UserProfile \<Rightarrow> Work \<Rightarrow> real" where
  "cosineSimilarity user work =
     (let normUser = normUser_loop (user_tags user) 0;
          (normWork, dot) = work_loop (user_tags user) (work_tags work) (0, 0);
          normUser = sqrt normUser;
          normWork = sqrt normWork
      in if normUser = 0 \<or> normWork = 0 then 0
         else dot / (normUser * normWork))"

subsection \<open>The similarity as the specification words it\<close>

text \<open>
  The value of the first user tag with the given name, 0 when there is none; the
  dot product as a sum over the item's tags; the Euclidean norm of a tag list.
\<close>

definition first_match :: "Tag list \<Rightarrow> string \<Rightarrow> real" where
  "first_match us n =
     (case find (\<lambda>u. tag_name u = n) us of None \<Rightarrow> 0 | Some u \<Rightarrow> tag_value u)"

definition spec_dot :: "Tag list \<Rightarrow> Tag list \<Rightarrow> real" where
  "spec_dot us ts = (\<Sum>t\<leftarrow>ts. tag_value t * first_match us (tag_name t))"

definition spec_norm :: "Tag list \<Rightarrow> real" where
  "spec_norm ts = sqrt (\<Sum>t\<leftarrow>ts. (tag_value t)\<^sup>2)"

definition spec_cosine :: "UserProfile \<Rightarrow> Work \<Rightarrow> real" where
  "spec_cosine user work =
     (if spec_norm (user_tags user) = 0 \<or> spec_norm (work_tags work) = 0 then 0
      else spec_dot (user_tags user) (work_tags work)
             / (spec_norm (user_tags user) * spec_norm (work_tags work)))"

section \<open>Library behaviour that the C++ standard leaves open\<close>

text \<open>
  Three library facilities rearrange a sequence in a way the program does not
  control: \<^verbatim>\<open>std::shuffle\<close> (driven by the generator \<^verbatim>\<open>g\<close>), the iteration
  order of \<^verbatim>\<open>std::unordered_map\<close>, and the order in which \<^verbatim>\<open>std::sort\<close>, which is
  not stable, leaves elements that compare equal. Each is modelled by the same
  selection procedure, driven by a sequence of draws that is a parameter of the
  model: every draw picks one of the elements still left. An exhausted sequence
  keeps drawing 0.
\<close>

fun draw :: "nat list \<Rightarrow> nat \<times> nat list" where
  "draw [] = (0, [])"
| "draw (c # cs) = (c, cs)"

function rearrange :: "'a list \<Rightarrow> nat list \<Rightarrow> 'a list \<times> nat list" where
  "rearrange [] g = ([], g)"
| "rearrange (x # xs) g =
     (let (c, g') = draw g;
          i = c mod length (x # xs);
          (ys, g'') = rearrange (take i (x # xs) @ drop (Suc i) (x # xs)) g'
      in ((x # xs) ! i # ys, g''))"
  by pat_completeness auto
termination
  by (relation "measure (\<lambda>(xs, g). length xs)") auto

text \<open>\<^verbatim>\<open>shuffle(v.begin(), v.end(), g)\<close>: the rearranged vector and the advanced generator.\<close>

definition shuffle :: "'a list \<Rightarrow> nat list \<Rightarrow> 'a list \<times> nat list" where
  "shuffle v g = rearrange v g"

text \<open>
  \<^verbatim>\<open>unordered_map<string, double>\<close> as an association list with one pair per key, in
  insertion order. \<^verbatim>\<open>m[k] += v\<close> value-initialises a new key to 0 before adding.
  Iterating from \<^verbatim>\<open>begin()\<close> to \<^verbatim>\<open>end()\<close> visits the pairs in an order chosen by
  the implementation, given here by the draws \<open>ord\<close>.
\<close>

type_synonym umap = "(string \<times> real) list"

fun add_at :: "umap \<Rightarrow> string \<Rightarrow> real \<Rightarrow> umap" where
  "add_at [] k v = [(k, 0 + v)]"
| "add_at ((k', x) # m) k v =
     (if k' = k then (k', x + v) # m else (k', x) # add_at m k v)"

definition iterate :: "nat list \<Rightarrow> umap \<Rightarrow> scored list" where
  "iterate ord m = fst (rearrange m ord)"

text \<open>
  The comparator of all three calls of \<^verbatim>\<open>sort\<close>:
  \<^verbatim>\<open>[](auto &a, auto &b) { return a.second > b.second; }\<close>.
  \<^verbatim>\<open>std::sort\<close> returns some permutation of its input that is ordered by the
  comparator: an insertion sort, applied to the input rearranged by the draws
  \<open>ties\<close>.
\<close>

definition by_score :: "scored \<Rightarrow> scored \<Rightarrow> bool" where
  "by_score a b = (snd a > snd b)"

fun insert_by :: "('a \<Rightarrow> 'a \<Rightarrow> bool) \<Rightarrow> 'a \<Rightarrow> 'a list \<Rightarrow> 'a list" where
  "insert_by cmp x [] = [x]"
| "insert_by cmp x (y # ys) =
     (if cmp y x then y # insert_by cmp x ys else x # y # ys)"

fun insertion_sort :: "('a \<Rightarrow> 'a \<Rightarrow> bool) \<Rightarrow> 'a list \<Rightarrow> 'a list" where
  "insertion_sort cmp [] = []"
| "insertion_sort cmp (x # xs) = insert_by cmp x (insertion_sort cmp xs)"

definition std_sort :: "nat list \<Rightarrow> ('a \<Rightarrow> 'a \<Rightarrow> bool) \<Rightarrow> 'a list \<Rightarrow> 'a list" where
  "std_sort ties cmp v = insertion_sort cmp (fst (rearrange v ties))"

section \<open>computeWorkScore and recommendContentBased\<close>

definition computeWorkScore ::
  "UserProfile \<Rightarrow> Work \<Rightarrow> MetricsConfig \<Rightarrow> real \<Rightarrow> real \<Rightarrow> real" where
  "computeWorkScore user work config maxViews maxTime =
     (let score = weightTags config * cosineSimilarity user work
      in if useMetrics config then
           (let normViews = (if maxViews > 0 then viewCount work / maxViews else 0);
                normTime = (if maxTime > 0 then interactionTime work / maxTime else 0)
            in score + (weightViews config * normViews + weightTime config * normTime))
         else score)"

text \<open>The loop that finds \<^verbatim>\<open>maxViews\<close> and \<^verbatim>\<open>maxTime\<close>, both starting at 0.\<close>

fun max_loop :: "Work list \<Rightarrow> real \<times> real \<Rightarrow> real \<times> real" where
  "max_loop [] (maxViews, maxTime) = (maxViews, maxTime)"
| "max_loop (w # ws) (maxViews, maxTime) =
     max_loop ws (if viewCount w > maxViews then viewCount w else maxViews,
                  if interactionTime w > maxTime then interactionTime w else maxTime)"

text \<open>The loop that scores every work and appends the pair to \<^verbatim>\<open>recs\<close>.\<close>

fun score_loop ::
  "UserProfile \<Rightarrow> MetricsConfig \<Rightarrow> real \<Rightarrow> real \<Rightarrow> Work list \<Rightarrow> scored list \<Rightarrow> scored list" where
  "score_loop user config maxViews maxTime [] recs = recs"
| "score_loop user config maxViews maxTime (w # ws) recs =
     score_loop user config maxViews maxTime ws
       (recs @ [(work_id w, computeWorkScore user w config maxViews maxTime)])"

definition recommendContentBased ::
  "nat list \<Rightarrow> UserProfile \<Rightarrow> Work list \<Rightarrow> MetricsConfig \<Rightarrow> scored list" where
  "recommendContentBased ties user works config =
     (let (maxViews, maxTime) = max_loop works (0, 0);
          recs = score_loop user config maxViews maxTime works []
      in std_sort ties by_score recs)"

subsection \<open>The content score as the specification words it\<close>

definition spec_max :: "('a \<Rightarrow> real) \<Rightarrow> 'a list \<Rightarrow> real" where
  "spec_max f xs = (if xs = [] then 0 else Max (f ` set xs))"

definition spec_score :: "UserProfile \<Rightarrow> Work list \<Rightarrow> MetricsConfig \<Rightarrow> Work \<Rightarrow> real" where
  "spec_score user catalog config item =
     weightTags config * cosineSimilarity user item +
     (if useMetrics config then
        weightViews config *
          (if spec_max viewCount catalog = 0 then 0
           else viewCount item / spec_max viewCount catalog) +
        weightTime config *
          (if spec_max interactionTime catalog = 0 then 0
           else interactionTime item / spec_max interactionTime catalog)
      else 0)"

section \<open>recommendCollaborative\<close>

text \<open>The inner loop over one user's liked works, and the outer loop over the users.\<close>

fun liked_loop :: "umap \<Rightarrow> real \<Rightarrow> string list \<Rightarrow> umap" where
  "liked_loop scoreMap s [] = scoreMap"
| "liked_loop scoreMap s (workId # ws) = liked_loop (add_at scoreMap workId s) s ws"

fun users_loop :: "umap \<Rightarrow> SimilarUser list \<Rightarrow> umap" where
  "users_loop scoreMap [] = scoreMap"
| "users_loop scoreMap (u # us) =
     users_loop (liked_loop scoreMap (similarity u) (likedWorks u)) us"

definition recommendCollaborative ::
  "nat list \<Rightarrow> nat list \<Rightarrow> SimilarUser list \<Rightarrow> scored list" where
  "recommendCollaborative ord ties similarUsers =
     (let scoreMap = users_loop [] similarUsers;
          recs = iterate ord scoreMap
      in std_sort ties by_score recs)"

section \<open>combineRecommendations\<close>

text \<open>Either loop of \<^verbatim>\<open>combineRecommendations\<close>: \<^verbatim>\<open>combined[p.first] += weight * p.second\<close>.\<close>

fun weighted_loop :: "umap \<Rightarrow> real \<Rightarrow> scored list \<Rightarrow> umap" where
  "weighted_loop combined weight [] = combined"
| "weighted_loop combined weight (p # ps) =
     weighted_loop (add_at combined (fst p) (weight * snd p)) weight ps"

definition combineRecommendations ::
  "nat list \<Rightarrow> nat list \<Rightarrow> scored list \<Rightarrow> scored list \<Rightarrow> real \<Rightarrow> real \<Rightarrow> scored list" where
  "combineRecommendations ord ties contentRecs collabRecs contentWeight collabWeight =
     (let combined = weighted_loop [] contentWeight contentRecs;
          combined = weighted_loop combined collabWeight collabRecs;
          recs = iterate ord combined
      in std_sort ties by_score recs)"

section \<open>getRandomizedRecommendations\<close>

text \<open>
  \<^verbatim>\<open>int\<close> is a 32-bit word read in two's complement, \<^verbatim>\<open>size_t\<close> a 64-bit word
  read unsigned. Two operations of the function have no defined result outside the
  range of \<^verbatim>\<open>int\<close>: the conversion of a \<^verbatim>\<open>double\<close>, which truncates towards zero,
  and the subtraction. The model returns the fault there.
\<close>

datatype fault = Undefined

definition static_cast_int :: "real \<Rightarrow> fault + 32 word" where
  "static_cast_int x =
     (let t = (if 0 \<le> x then \<lfloor>x\<rfloor> else \<lceil>x\<rceil>)
      in if - (2 ^ 31) \<le> t \<and> t < 2 ^ 31 then Inr (word_of_int t) else Inl Undefined)"

definition int_minus :: "32 word \<Rightarrow> 32 word \<Rightarrow> fault + 32 word" where
  "int_minus a b =
     (let d = sint a - sint b
      in if - (2 ^ 31) \<le> d \<and> d < 2 ^ 31 then Inr (a - b) else Inl Undefined)"

text \<open>
  \<^verbatim>\<open>static_cast<size_t>(numTop)\<close> extends the sign, so a negative \<^verbatim>\<open>int\<close> becomes
  a huge size; \<^verbatim>\<open>static_cast<int>(v.size())\<close> keeps the low 32 bits.
\<close>

definition size_t_of_int :: "32 word \<Rightarrow> nat" where
  "size_t_of_int k = unat (scast k :: 64 word)"

definition int_of_size_t :: "nat \<Rightarrow> int" where
  "int_of_size_t n = sint (word_of_nat n :: 32 word)"

text \<open>
  The first loop, with its \<^verbatim>\<open>size_t\<close> counter:
  \<^verbatim>\<open>for (size_t i = 0; i < static_cast<size_t>(numTop) && i < recs.size(); i++)\<close>.
\<close>

function top_loop :: "scored list \<Rightarrow> nat \<Rightarrow> nat \<Rightarrow> scored list \<Rightarrow> scored list" where
  "top_loop recs numTop i finalRecs =
     (if i < numTop \<and> i < length recs
      then top_loop recs numTop (Suc i) (finalRecs @ [recs ! i])
      else finalRecs)"
  by pat_completeness auto
termination
  by (relation "measure (\<lambda>(recs, numTop, i, finalRecs). length recs - i)") auto

declare top_loop.simps [simp del]

text \<open>
  The second and the third loop, with their \<^verbatim>\<open>int\<close> counter:
  \<^verbatim>\<open>for (int i = 0; i < bound && i < static_cast<int>(src.size()); i++)
    dst.push_back(src[i]);\<close>
  The counter stays below \<open>bound\<close>, so the increment does not overflow.
\<close>

function copy_loop :: "scored list \<Rightarrow> int \<Rightarrow> int \<Rightarrow> scored list \<Rightarrow> scored list" where
  "copy_loop src bound i dst =
     (if i < bound \<and> i < int_of_size_t (length src)
      then copy_loop src bound (i + 1) (dst @ [src ! nat i])
      else dst)"
  by pat_completeness auto
termination
  by (relation "measure (\<lambda>(src, bound, i, dst). nat (bound - i))") auto

declare copy_loop.simps [simp del]

text \<open>
  The generator \<^verbatim>\<open>g\<close> is the sequence of its future draws; the first shuffle
  advances it and the second continues from there.
\<close>

definition getRandomizedRecommendations ::
  "scored list \<Rightarrow> 32 word \<Rightarrow> real \<Rightarrow> nat list \<Rightarrow> fault + scored list" where
  "getRandomizedRecommendations recs numRecommendations randomFactor g =
     (if numRecommendations \<le>s 0 then Inr []
      else
        case static_cast_int (real_of_int (sint numRecommendations) * randomFactor) of
          Inl e \<Rightarrow> Inl e
        | Inr numRandom \<Rightarrow>
           (case int_minus numRecommendations numRandom of
              Inl e \<Rightarrow> Inl e
            | Inr numTop \<Rightarrow>
               (let finalRecs = top_loop recs (size_t_of_int numTop) 0 [];
                    remaining = copy_loop recs (sint numTop) 0 [];
                    (remaining, g) = shuffle remaining g;
                    finalRecs = copy_loop remaining (sint numRandom) 0 finalRecs;
                    (finalRecs, g) = shuffle finalRecs g
                in Inr finalRecs)))"

section \<open>Notions used in the statements\<close>

text \<open>
  The value of a key in an association list, 0 when the key is absent; the sum of
  the scores a list gives to one id; the collaborative score as the specification
  words it, the sum of the similarities of the peers whose liked set holds the item;
  numRandom = floor(numRecommendations * randomFactor) and numTop =
  numRecommendations - numRandom, as the specification defines them.
\<close>

definition numRandom_of :: "32 word \<Rightarrow> real \<Rightarrow> int" where
  "numRandom_of n rf = \<lfloor>real_of_int (sint n) * rf\<rfloor>"

definition numTop_of :: "32 word \<Rightarrow> real \<Rightarrow> int" where
  "numTop_of n rf = sint n - numRandom_of n rf"

definition lookup0 :: "umap \<Rightarrow> string \<Rightarrow> real" where
  "lookup0 m k = (case map_of m k of None \<Rightarrow> 0 | Some x \<Rightarrow> x)"

definition total :: "scored list \<Rightarrow> string \<Rightarrow> real" where
  "total ps k = (\<Sum>p\<leftarrow>ps. if fst p = k then snd p else 0)"

definition spec_collab_score :: "SimilarUser list \<Rightarrow> string \<Rightarrow> real" where
  "spec_collab_score peers item =
     (\<Sum>p\<leftarrow>peers. if item \<in> set (likedWorks p) then similarity p else 0)"


section \<open>Rearranging and sorting\<close>

lemma mset_remove_nth:
  "i < length xs \<Longrightarrow> add_mset (xs ! i) (mset (take i xs @ drop (Suc i) xs)) = mset xs"
proof -
  assume "i < length xs"
  then have "xs = take i xs @ xs ! i # drop (Suc i) xs"
    by (rule id_take_nth_drop)
  then have "mset xs = mset (take i xs @ xs ! i # drop (Suc i) xs)"
    by simp
  then show ?thesis by simp
qed

lemma mset_rearrange: "mset (fst (rearrange xs g)) = mset xs"
proof (induction xs g rule: rearrange.induct)
  case (1 g)
  show ?case by simp
next
  case (2 x xs g)
  obtain c g' where d: "draw g = (c, g')" by (cases "draw g")
  define i where "i = c mod length (x # xs)"
  have i: "i < length (x # xs)" unfolding i_def by simp
  obtain ys g'' where r: "rearrange (take i (x # xs) @ drop (Suc i) (x # xs)) g' = (ys, g'')"
    by (cases "rearrange (take i (x # xs) @ drop (Suc i) (x # xs)) g'")
  have "mset ys = mset (take i (x # xs) @ drop (Suc i) (x # xs))"
    using "2.IH" [OF refl d [symmetric] i_def] r by simp
  moreover have "fst (rearrange (x # xs) g) = (x # xs) ! i # ys"
    using d r by (simp add: i_def Let_def del: take_Cons' drop_Suc_Cons nth_Cons')
  ultimately show ?case
    using mset_remove_nth [OF i] by (simp del: drop_Suc_Cons)
qed

lemma set_rearrange: "set (fst (rearrange xs g)) = set xs"
  using mset_rearrange [of xs g] by (metis set_mset_mset)

lemma length_rearrange: "length (fst (rearrange xs g)) = length xs"
  using mset_rearrange [of xs g] by (metis size_mset)

lemma mset_insert_by: "mset (insert_by cmp x ys) = add_mset x (mset ys)"
  by (induction ys) simp_all

lemma mset_insertion_sort: "mset (insertion_sort cmp xs) = mset xs"
  by (induction xs) (simp_all add: mset_insert_by)

lemma set_insert_by: "set (insert_by cmp x ys) = insert x (set ys)"
  by (induction ys) auto

lemma sorted_insert_by_score:
  "sorted_wrt (\<lambda>a b. snd b \<le> snd a) ys \<Longrightarrow>
   sorted_wrt (\<lambda>a b. snd b \<le> snd a) (insert_by by_score x ys)"
  by (induction ys) (auto simp: set_insert_by by_score_def)

lemma sorted_insertion_sort:
  "sorted_wrt (\<lambda>a b. snd b \<le> snd a) (insertion_sort by_score xs)"
  by (induction xs) (simp_all add: sorted_insert_by_score)

lemma mset_std_sort: "mset (std_sort ties cmp v) = mset v"
  by (simp add: std_sort_def mset_insertion_sort mset_rearrange)

lemma set_std_sort: "set (std_sort ties cmp v) = set v"
  using mset_std_sort [of ties cmp v] by (metis set_mset_mset)

lemma sorted_std_sort: "sorted_wrt (\<lambda>a b. snd b \<le> snd a) (std_sort ties by_score v)"
  by (simp add: std_sort_def sorted_insertion_sort)

lemma distinct_fst_mset:
  "mset xs = mset ys \<Longrightarrow> distinct (map fst xs) = distinct (map fst ys)"
proof -
  assume "mset xs = mset ys"
  then have "mset (map fst xs) = mset (map fst ys)" by (metis mset_map)
  then show ?thesis by (metis distinct_count_atmost_1 set_mset_mset)
qed

lemma map_of_mset:
  assumes "mset xs = mset ys" and "distinct (map fst xs)"
  shows "map_of xs = map_of ys"
proof -
  have d: "distinct (map fst ys)" using assms distinct_fst_mset by blast
  have "set xs = set ys" using assms(1) by (metis set_mset_mset)
  then show ?thesis using assms(2) d by (intro map_of_inject_set [THEN iffD2]) 
qed

lemma mset_pair_cases:
  assumes h: "mset zs = mset [a, b]"
  shows "zs = [a, b] \<or> zs = [b, a]"
proof -
  from h have "size (mset zs) = size (mset [a, b])" by simp
  then have len: "length zs = 2" by simp
  then obtain c zs' where zs: "zs = c # zs'" and "length zs' = 1"
    by (cases zs) auto
  then obtain d where "zs' = [d]"
    by (cases zs') auto
  with zs h have "{#c, d#} = {#a, b#}" by simp
  then have "c = a \<and> d = b \<or> c = b \<and> d = a"
    by (auto simp: add_eq_conv_ex)
  with zs \<open>zs' = [d]\<close> show ?thesis by auto
qed

lemma sorted_desc_unique:
  assumes sx: "sorted_wrt (\<lambda>a b. snd b \<le> snd a) xs"
    and sy: "sorted_wrt (\<lambda>a b. snd b \<le> snd a) ys"
    and m: "mset xs = mset ys"
    and d: "distinct (map snd xs)"
  shows "xs = (ys :: scored list)"
proof -
  have st: "set xs = set ys" using m by (metis set_mset_mset)
  have dy: "distinct (map snd ys)"
    using m d by (metis mset_map distinct_count_atmost_1 set_mset_mset)
  have rx: "sorted (rev (map snd xs))"
    using sx by (simp add: sorted_wrt_rev sorted_wrt_map)
  have ry: "sorted (rev (map snd ys))"
    using sy by (simp add: sorted_wrt_rev sorted_wrt_map)
  have "rev (map snd xs) = rev (map snd ys)"
    using rx ry d dy st by (intro sorted_distinct_set_unique) simp_all
  then have eq: "map snd xs = map snd ys" by simp
  have "inj_on snd (set xs \<union> set ys)"
    using d st by (simp add: distinct_map)
  then show ?thesis using eq by (simp add: inj_on_map_eq_map)
qed

text \<open>
  The draws reach every rearrangement, and the sort every list that is ordered by
  score and holds the elements of its input: the model leaves out no behaviour that
  the library may show.
\<close>

lemma rearrange_pick:
  assumes "i < length xs"
  shows "fst (rearrange xs (i # g)) = xs ! i # fst (rearrange (take i xs @ drop (Suc i) xs) g)"
proof (cases xs)
  case Nil
  with assms show ?thesis by simp
next
  case (Cons x xs')
  obtain ys g'' where r: "rearrange (take i (x # xs') @ drop (Suc i) (x # xs')) g = (ys, g'')"
    by (cases "rearrange (take i (x # xs') @ drop (Suc i) (x # xs')) g")
  have "i mod length (x # xs') = i" using assms Cons by simp
  then show ?thesis
    unfolding Cons using r
    by (simp add: Let_def del: take_Cons' drop_Suc_Cons nth_Cons' length_Cons)
qed

lemma rearrange_complete:
  "mset ys = mset xs \<Longrightarrow> \<exists>g. fst (rearrange xs g) = ys"
proof (induction ys arbitrary: xs)
  case Nil
  then show ?case by simp
next
  case (Cons y ys)
  then have "y \<in> set xs" by (metis list.set_intros(1) set_mset_mset)
  then obtain i where i: "i < length xs" and y: "xs ! i = y"
    by (auto simp: in_set_conv_nth)
  have "add_mset y (mset (take i xs @ drop (Suc i) xs)) = add_mset y (mset ys)"
    using mset_remove_nth [OF i] y Cons.prems by simp
  then have "mset ys = mset (take i xs @ drop (Suc i) xs)" by simp
  then obtain g where "fst (rearrange (take i xs @ drop (Suc i) xs) g) = ys"
    using Cons.IH by blast
  then have "fst (rearrange xs (i # g)) = y # ys"
    using rearrange_pick [OF i, of g] y by simp
  then show ?case by blast
qed

lemma insertion_sort_sorted:
  "sorted_wrt (\<lambda>a b. snd b \<le> snd a) xs \<Longrightarrow> insertion_sort by_score xs = xs"
proof (induction xs)
  case Nil
  show ?case by simp
next
  case (Cons x xs)
  then have "insertion_sort by_score xs = xs" by simp
  moreover have "insert_by by_score x xs = x # xs"
    using Cons.prems by (cases xs) (auto simp: by_score_def)
  ultimately show ?case by simp
qed

lemma std_sort_complete:
  assumes "mset ys = mset xs" and "sorted_wrt (\<lambda>a b. snd b \<le> snd a) ys"
  shows "\<exists>ties. std_sort ties by_score xs = ys"
proof -
  obtain g where "fst (rearrange xs g) = ys"
    using rearrange_complete [OF assms(1)] by blast
  then have "std_sort g by_score xs = ys"
    by (simp add: std_sort_def insertion_sort_sorted [OF assms(2)])
  then show ?thesis by blast
qed

lemma mset_iterate: "mset (iterate ord m) = mset m"
  by (simp add: iterate_def mset_rearrange)

lemma mset_sorted_iterate: "mset (std_sort ties cmp (iterate ord m)) = mset m"
  by (simp add: mset_std_sort mset_iterate)

lemma map_of_sorted_iterate:
  "distinct (map fst m) \<Longrightarrow> map_of (std_sort ties cmp (iterate ord m)) = map_of m"
  using map_of_mset [OF mset_sorted_iterate [symmetric]] by simp

lemma distinct_sorted_iterate:
  "distinct (map fst m) \<Longrightarrow> distinct (map fst (std_sort ties cmp (iterate ord m)))"
  using distinct_fst_mset [OF mset_sorted_iterate] by simp

section \<open>The map operations and the accumulating loops\<close>

lemma keys_add_at: "fst ` set (add_at m k v) = insert k (fst ` set m)"
  by (induction m k v rule: add_at.induct) auto

lemma distinct_add_at: "distinct (map fst m) \<Longrightarrow> distinct (map fst (add_at m k v))"
  by (induction m k v rule: add_at.induct) (auto simp: keys_add_at)

lemma lookup0_add_at:
  "lookup0 (add_at m k v) k' = (if k' = k then lookup0 m k + v else lookup0 m k')"
  by (induction m k v rule: add_at.induct) (auto simp: lookup0_def)

lemma lookup0_Nil: "lookup0 [] k = 0"
  by (simp add: lookup0_def)

lemma keys_liked_loop: "fst ` set (liked_loop m s ws) = fst ` set m \<union> set ws"
  by (induction ws arbitrary: m) (auto simp: keys_add_at)

lemma distinct_liked_loop:
  "distinct (map fst m) \<Longrightarrow> distinct (map fst (liked_loop m s ws))"
  by (induction ws arbitrary: m) (simp_all add: distinct_add_at)

lemma lookup0_liked_loop:
  "lookup0 (liked_loop m s ws) k = lookup0 m k + s * real (count_list ws k)"
  by (induction ws arbitrary: m) (simp_all add: lookup0_add_at algebra_simps)

lemma keys_users_loop:
  "fst ` set (users_loop m us) = fst ` set m \<union> (\<Union>u\<in>set us. set (likedWorks u))"
  by (induction us arbitrary: m) (auto simp: keys_liked_loop)

lemma distinct_users_loop:
  "distinct (map fst m) \<Longrightarrow> distinct (map fst (users_loop m us))"
  by (induction us arbitrary: m) (simp_all add: distinct_liked_loop)

lemma lookup0_users_loop:
  "lookup0 (users_loop m us) k =
     lookup0 m k + (\<Sum>u\<leftarrow>us. similarity u * real (count_list (likedWorks u) k))"
  by (induction us arbitrary: m) (simp_all add: lookup0_liked_loop algebra_simps)

lemma count_list_distinct: "distinct ws \<Longrightarrow> count_list ws k = (if k \<in> set ws then 1 else 0)"
  by (induction ws) auto

lemma collab_sum_distinct:
  "\<forall>u\<in>set us. distinct (likedWorks u) \<Longrightarrow>
   (\<Sum>u\<leftarrow>us. similarity u * real (count_list (likedWorks u) k)) = spec_collab_score us k"
  by (induction us) (simp_all add: spec_collab_score_def count_list_distinct)

lemma keys_weighted_loop: "fst ` set (weighted_loop m w ps) = fst ` set m \<union> fst ` set ps"
  by (induction ps arbitrary: m) (auto simp: keys_add_at)

lemma distinct_weighted_loop:
  "distinct (map fst m) \<Longrightarrow> distinct (map fst (weighted_loop m w ps))"
  by (induction ps arbitrary: m) (simp_all add: distinct_add_at)

lemma lookup0_weighted_loop:
  "lookup0 (weighted_loop m w ps) k = lookup0 m k + w * total ps k"
  by (induction ps arbitrary: m) (simp_all add: lookup0_add_at total_def algebra_simps)

lemma total_distinct: "distinct (map fst ps) \<Longrightarrow> total ps k = lookup0 ps k"
  by (induction ps) (auto simp: total_def lookup0_def rev_image_eqI split: option.splits)

lemma map_of_lookup0:
  "map_of m k = (if k \<in> fst ` set m then Some (lookup0 m k) else None)"
  by (auto simp: lookup0_def map_of_eq_None_iff split: option.splits)


section \<open>Properties of cosineSimilarity\<close>

lemma normUser_loop_sum: "normUser_loop ts a = a + (\<Sum>t\<leftarrow>ts. (tag_value t)\<^sup>2)"
  by (induction ts arbitrary: a) (simp_all add: power2_eq_square)

lemma utag_loop_first_match: "utag_loop us t d = d + tag_value t * first_match us (tag_name t)"
  by (induction us) (simp_all add: first_match_def)

lemma work_loop_sums:
  "work_loop us ts (a, d) = (a + (\<Sum>t\<leftarrow>ts. (tag_value t)\<^sup>2), d + spec_dot us ts)"
  by (induction ts arbitrary: a d)
     (simp_all add: spec_dot_def utag_loop_first_match power2_eq_square)

lemma cosineSimilarity_unfold:
  "cosineSimilarity user work = spec_cosine user work"
  by (simp add: cosineSimilarity_def spec_cosine_def normUser_loop_sum work_loop_sums
      spec_norm_def)

text \<open>
  C3: the similarity computed by the loops is dot / (normUser * normItem), with the dot
  product summed over the item's tags against the first user tag of the same name
  (no contribution without a match) and each norm the Euclidean norm of that side's
  whole tag list; it is exactly 0 whenever one of the norms is 0.
\<close>

theorem C3_cosine_formula:
  "cosineSimilarity user work =
     (if spec_norm (user_tags user) = 0 \<or> spec_norm (work_tags work) = 0 then 0
      else spec_dot (user_tags user) (work_tags work)
             / (spec_norm (user_tags user) * spec_norm (work_tags work)))
   \<and> spec_dot (user_tags user) (work_tags work)
       = (\<Sum>t\<leftarrow>work_tags work. tag_value t *
            (case find (\<lambda>u. tag_name u = tag_name t) (user_tags user) of
               None \<Rightarrow> 0 | Some u \<Rightarrow> tag_value u))
   \<and> spec_norm (user_tags user) = sqrt (\<Sum>t\<leftarrow>user_tags user. (tag_value t)\<^sup>2)
   \<and> spec_norm (work_tags work) = sqrt (\<Sum>t\<leftarrow>work_tags work. (tag_value t)\<^sup>2)"
  by (simp add: cosineSimilarity_unfold spec_cosine_def spec_dot_def first_match_def
      spec_norm_def)

text \<open>
  C2: the claim and the comment of the function promise a similarity between 0 and 1
  when no tag value is negative. An item that repeats a tag name matches every copy
  against the same user tag, while its norm counts the copies as separate components:
  for a user with the tag a of value 1 and an item with four tags a of value 1 the
  dot product is 4, the norms are 1 and 2 and cosineSimilarity returns 2.
\<close>

theorem C2_repeated_tag_similarity:
  "cosineSimilarity \<lparr>user_tags = [\<lparr>tag_name = ''a'', tag_value = 1\<rparr>]\<rparr>
     \<lparr>work_id = ''W'',
      work_tags = [\<lparr>tag_name = ''a'', tag_value = 1\<rparr>, \<lparr>tag_name = ''a'', tag_value = 1\<rparr>,
                   \<lparr>tag_name = ''a'', tag_value = 1\<rparr>, \<lparr>tag_name = ''a'', tag_value = 1\<rparr>],
      viewCount = 0, interactionTime = 0\<rparr> = 2"
  by (simp add: cosineSimilarity_def)

section \<open>Properties of recommendCollaborative\<close>

lemma keys_collab:
  "fst ` set (users_loop [] peers) = (\<Union>p\<in>set peers. set (likedWorks p))"
  by (simp add: keys_users_loop)

lemma map_of_collab:
  assumes "\<forall>p\<in>set peers. distinct (likedWorks p)"
  shows "map_of (users_loop [] peers) item =
     (if \<exists>p\<in>set peers. item \<in> set (likedWorks p)
      then Some (spec_collab_score peers item) else None)"
proof -
  have "lookup0 (users_loop [] peers) item = spec_collab_score peers item"
    using collab_sum_distinct [OF assms] by (simp add: lookup0_users_loop lookup0_Nil)
  then show ?thesis
    by (simp add: map_of_lookup0 [of "users_loop [] peers"] keys_collab)
qed

lemma scenario_map:
  "users_loop []
     [\<lparr>user_id = ''u1'', similarity = 0.8, likedWorks = [''X'', ''Y'']\<rparr>,
      \<lparr>user_id = ''u2'', similarity = 0.3, likedWorks = [''Y'']\<rparr>]
   = [(''X'', 0.8), (''Y'', 1.1)]"
  by simp

lemma sorted_pair:
  assumes "mset (zs :: scored list) = mset [a, b]" and "sorted_wrt (\<lambda>a b. snd b \<le> snd a) zs"
    and "snd a < snd b"
  shows "zs = [b, a]"
  using mset_pair_cases [OF assms(1)] assms(2,3) by auto

text \<open>
  C5: when every peer's liked works form a set (no id twice in one list), the output
  of recommendCollaborative has exactly one entry for each item id that some peer
  likes, scored with the sum of the similarities of the peers who like it, and no
  entry for any other id. On the peers u1 (0.8, likes X and Y) and u2 (0.3, likes Y)
  the output is Y with 1.1 followed by X with 0.8, whatever order the map iterates in.
\<close>

theorem C5_collaborative_scores:
  "((\<forall>p\<in>set peers. distinct (likedWorks p)) \<longrightarrow>
      distinct (map fst (recommendCollaborative ord ties peers)) \<and>
      (\<forall>item. map_of (recommendCollaborative ord ties peers) item =
         (if \<exists>p\<in>set peers. item \<in> set (likedWorks p)
          then Some (spec_collab_score peers item) else None)))
   \<and> recommendCollaborative ord ties
        [\<lparr>user_id = ''u1'', similarity = 0.8, likedWorks = [''X'', ''Y'']\<rparr>,
         \<lparr>user_id = ''u2'', similarity = 0.3, likedWorks = [''Y'']\<rparr>]
      = [(''Y'', 1.1), (''X'', 0.8)]"
proof (intro conjI impI allI)
  show "distinct (map fst (recommendCollaborative ord ties peers))"
    unfolding recommendCollaborative_def Let_def
    by (rule distinct_sorted_iterate) (simp add: distinct_users_loop)
next
  fix item
  assume d: "\<forall>p\<in>set peers. distinct (likedWorks p)"
  have "map_of (recommendCollaborative ord ties peers) = map_of (users_loop [] peers)"
    unfolding recommendCollaborative_def Let_def
    by (rule map_of_sorted_iterate) (simp add: distinct_users_loop)
  then show "map_of (recommendCollaborative ord ties peers) item =
         (if \<exists>p\<in>set peers. item \<in> set (likedWorks p)
          then Some (spec_collab_score peers item) else None)"
    using map_of_collab [OF d] by simp
next
  let ?P = "[\<lparr>user_id = ''u1'', similarity = 0.8, likedWorks = [''X'', ''Y'']\<rparr>,
         \<lparr>user_id = ''u2'', similarity = 0.3, likedWorks = [''Y'']\<rparr>]"
  have m: "mset (recommendCollaborative ord ties ?P) = mset [(''X'', 0.8), (''Y'', 1.1)]"
    unfolding recommendCollaborative_def Let_def mset_sorted_iterate scenario_map ..
  have s: "sorted_wrt (\<lambda>a b. snd b \<le> snd a) (recommendCollaborative ord ties ?P)"
    unfolding recommendCollaborative_def Let_def by (rule sorted_std_sort)
  show "recommendCollaborative ord ties ?P = [(''Y'', 1.1), (''X'', 0.8)]"
    by (rule sorted_pair [OF m s]) simp
qed

theorem C5_collaborative_scores_witness:
  "distinct (map fst (recommendCollaborative [1] [0, 1]
       [\<lparr>user_id = ''u1'', similarity = 2, likedWorks = [''X'', ''Y'']\<rparr>,
        \<lparr>user_id = ''u2'', similarity = 3, likedWorks = [''Y'', ''Z'']\<rparr>]))
   \<and> map_of (recommendCollaborative [1] [0, 1]
       [\<lparr>user_id = ''u1'', similarity = 2, likedWorks = [''X'', ''Y'']\<rparr>,
        \<lparr>user_id = ''u2'', similarity = 3, likedWorks = [''Y'', ''Z'']\<rparr>]) ''Y'' = Some 5
   \<and> map_of (recommendCollaborative [1] [0, 1]
       [\<lparr>user_id = ''u1'', similarity = 2, likedWorks = [''X'', ''Y'']\<rparr>,
        \<lparr>user_id = ''u2'', similarity = 3, likedWorks = [''Y'', ''Z'']\<rparr>]) ''W'' = None"
  using C5_collaborative_scores [of
       "[\<lparr>user_id = ''u1'', similarity = 2, likedWorks = [''X'', ''Y'']\<rparr>,
        \<lparr>user_id = ''u2'', similarity = 3, likedWorks = [''Y'', ''Z'']\<rparr>]" "[1]" "[0, 1]"]
  by (simp add: spec_collab_score_def)

section \<open>Properties of combineRecommendations\<close>

lemma keys_combined:
  "fst ` set (weighted_loop (weighted_loop [] cw A) bw B) = fst ` set A \<union> fst ` set B"
  by (simp add: keys_weighted_loop)

lemma distinct_combined:
  "distinct (map fst (weighted_loop (weighted_loop [] cw A) bw B))"
  by (simp add: distinct_weighted_loop)

lemma lookup0_combined:
  "lookup0 (weighted_loop (weighted_loop [] cw A) bw B) k = cw * total A k + bw * total B k"
  by (simp add: lookup0_weighted_loop lookup0_Nil)

lemma map_of_combined:
  "map_of (weighted_loop (weighted_loop [] cw A) bw B) k =
     (if k \<in> fst ` set A \<union> fst ` set B then Some (cw * total A k + bw * total B k) else None)"
  by (simp only: map_of_lookup0 [of "weighted_loop (weighted_loop [] cw A) bw B"]
      keys_combined lookup0_combined)

lemma map_of_combineRecommendations:
  "map_of (combineRecommendations ord ties A B cw bw) k =
     (if k \<in> fst ` set A \<union> fst ` set B then Some (cw * total A k + bw * total B k) else None)"
proof -
  have "map_of (combineRecommendations ord ties A B cw bw)
          = map_of (weighted_loop (weighted_loop [] cw A) bw B)"
    unfolding combineRecommendations_def Let_def
    by (rule map_of_sorted_iterate) (rule distinct_combined)
  then show ?thesis by (simp only: map_of_combined)
qed

lemma distinct_combineRecommendations:
  "distinct (map fst (combineRecommendations ord ties A B cw bw))"
  unfolding combineRecommendations_def Let_def
  by (rule distinct_sorted_iterate) (rule distinct_combined)

lemma sorted_combineRecommendations:
  "sorted_wrt (\<lambda>a b. snd b \<le> snd a) (combineRecommendations ord ties A B cw bw)"
  unfolding combineRecommendations_def Let_def by (rule sorted_std_sort)

lemma lookup0_absent: "k \<notin> fst ` set m \<Longrightarrow> lookup0 m k = 0"
  by (simp add: lookup0_def map_of_eq_None_iff [THEN iffD2])

lemma lookup0_present: "map_of m k = Some x \<Longrightarrow> lookup0 m k = x"
  by (simp add: lookup0_def)

text \<open>
  C6: for input lists with at most one entry per item id, the output of
  combineRecommendations has at most one entry per id, and the entry of an id is
  decided by its presence in the inputs: absent from both, the id is not in the
  output; present in one only, its score is that list's weight times its score there;
  present in both, its score is contentWeight * contentScore + collabWeight *
  collabScore.
\<close>

theorem C6_combined_scores:
  assumes "distinct (map fst contentRecs)" and "distinct (map fst collabRecs)"
  shows "distinct (map fst (combineRecommendations ord ties contentRecs collabRecs
                      contentWeight collabWeight))
    \<and> ((item, s) \<in> set (combineRecommendations ord ties contentRecs collabRecs
                      contentWeight collabWeight)) =
        (map_of (combineRecommendations ord ties contentRecs collabRecs
                      contentWeight collabWeight) item = Some s)
    \<and> map_of (combineRecommendations ord ties contentRecs collabRecs
                      contentWeight collabWeight) item =
        (case (map_of contentRecs item, map_of collabRecs item) of
           (None, None) \<Rightarrow> None
         | (Some c, None) \<Rightarrow> Some (contentWeight * c)
         | (None, Some d) \<Rightarrow> Some (collabWeight * d)
         | (Some c, Some d) \<Rightarrow> Some (contentWeight * c + collabWeight * d))"
proof (intro conjI)
  let ?out = "combineRecommendations ord ties contentRecs collabRecs contentWeight collabWeight"
  show d: "distinct (map fst ?out)" by (rule distinct_combineRecommendations)
  show "((item, s) \<in> set ?out) = (map_of ?out item = Some s)"
    using d by simp
  have tc: "total contentRecs item = lookup0 contentRecs item"
    by (rule total_distinct [OF assms(1)])
  have td: "total collabRecs item = lookup0 collabRecs item"
    by (rule total_distinct [OF assms(2)])
  have a: "item \<in> fst ` set contentRecs \<longleftrightarrow> map_of contentRecs item \<noteq> None"
    by (simp add: map_of_eq_None_iff)
  have b: "item \<in> fst ` set collabRecs \<longleftrightarrow> map_of collabRecs item \<noteq> None"
    by (simp add: map_of_eq_None_iff)
  show "map_of ?out item =
        (case (map_of contentRecs item, map_of collabRecs item) of
           (None, None) \<Rightarrow> None
         | (Some c, None) \<Rightarrow> Some (contentWeight * c)
         | (None, Some d) \<Rightarrow> Some (collabWeight * d)
         | (Some c, Some d) \<Rightarrow> Some (contentWeight * c + collabWeight * d))"
    unfolding map_of_combineRecommendations tc td Un_iff a b
    by (cases "map_of contentRecs item"; cases "map_of collabRecs item")
       (simp_all add: lookup0_def)
qed

theorem C6_combined_scores_witness:
  "map_of (combineRecommendations [1] [2] [(''a'', 1), (''b'', 2)] [(''b'', 3), (''c'', 4)]
      (1 / 2) 2) ''a'' = Some (1 / 2)
   \<and> map_of (combineRecommendations [1] [2] [(''a'', 1), (''b'', 2)] [(''b'', 3), (''c'', 4)]
      (1 / 2) 2) ''b'' = Some 7
   \<and> map_of (combineRecommendations [1] [2] [(''a'', 1), (''b'', 2)] [(''b'', 3), (''c'', 4)]
      (1 / 2) 2) ''c'' = Some 8
   \<and> map_of (combineRecommendations [1] [2] [(''a'', 1), (''b'', 2)] [(''b'', 3), (''c'', 4)]
      (1 / 2) 2) ''d'' = None"
  using C6_combined_scores [of "[(''a'', 1), (''b'', 2)]" "[(''b'', 3), (''c'', 4)]"
      "[1]" "[2]" "1 / 2" 2 "''a''"]
    C6_combined_scores [of "[(''a'', 1), (''b'', 2)]" "[(''b'', 3), (''c'', 4)]"
      "[1]" "[2]" "1 / 2" 2 "''b''"]
    C6_combined_scores [of "[(''a'', 1), (''b'', 2)]" "[(''b'', 3), (''c'', 4)]"
      "[1]" "[2]" "1 / 2" 2 "''c''"]
    C6_combined_scores [of "[(''a'', 1), (''b'', 2)]" "[(''b'', 3), (''c'', 4)]"
      "[1]" "[2]" "1 / 2" 2 "''d''"]
  by simp

text \<open>
  C9, as amended: for input lists A and B with at most one entry per item id each
  and equal weights, combineRecommendations of A and B and combineRecommendations of
  B and A hold the same entries, the same ids with the same scores, each list sorted
  by non-increasing score, whatever the iteration order of the map and the tie order
  of the sort in either call; they are the same sequence whenever no two entries
  have the same score. With one entry per id a score is the sum of at most two
  products, so the order of the two additions is all that differs between the calls.
\<close>

theorem C9_commutative_up_to_ties:
  assumes "distinct (map fst A)" and "distinct (map fst B)"
  shows "mset (combineRecommendations ord ties A B w w)
           = mset (combineRecommendations ord' ties' B A w w)
   \<and> sorted_wrt (\<lambda>a b. snd b \<le> snd a) (combineRecommendations ord ties A B w w)
   \<and> sorted_wrt (\<lambda>a b. snd b \<le> snd a) (combineRecommendations ord' ties' B A w w)
   \<and> (distinct (map snd (combineRecommendations ord ties A B w w)) \<longrightarrow>
        combineRecommendations ord ties A B w w = combineRecommendations ord' ties' B A w w)"
proof -
  let ?l = "combineRecommendations ord ties A B w w"
  let ?r = "combineRecommendations ord' ties' B A w w"
  have ta: "total A k = lookup0 A k" and tb: "total B k = lookup0 B k" for k
    by (rule total_distinct [OF assms(1)], rule total_distinct [OF assms(2)])
  have "map_of ?l k = map_of ?r k" for k
    unfolding map_of_combineRecommendations ta tb
    by (simp add: Un_commute add.commute)
  then have "map_of ?l = map_of ?r" by (rule ext)
  moreover have dl: "distinct (map fst ?l)" and dr: "distinct (map fst ?r)"
    by (rule distinct_combineRecommendations)+
  ultimately have "set ?l = set ?r"
    by (simp add: map_of_inject_set)
  moreover have "distinct ?l" "distinct ?r"
    using dl dr by (simp_all add: distinct_map)
  ultimately have m: "mset ?l = mset ?r"
    by (simp add: set_eq_iff_mset_eq_distinct)
  have sl: "sorted_wrt (\<lambda>a b. snd b \<le> snd a) ?l" and sr: "sorted_wrt (\<lambda>a b. snd b \<le> snd a) ?r"
    by (rule sorted_combineRecommendations)+
  show ?thesis
    using m sl sr sorted_desc_unique [OF sl sr m] by blast
qed

theorem C9_commutative_up_to_ties_witness:
  "combineRecommendations [] [] [(''x'', 1), (''z'', 3)] [(''y'', 2), (''z'', 4)] 1 1
     = combineRecommendations [1] [] [(''y'', 2), (''z'', 4)] [(''x'', 1), (''z'', 3)] 1 1"
  using C9_commutative_up_to_ties [of "[(''x'', 1), (''z'', 3)]" "[(''y'', 2), (''z'', 4)]"
      "[]" "[]" 1 "[1]" "[]"]
  by (simp add: combineRecommendations_def iterate_def std_sort_def by_score_def)

text \<open>
  Two entries of equal score come out in the order the map and the sort leave
  them in, and that order follows the order of insertion when the map iterates in
  insertion order and the sort moves no equal elements: swapping the arguments
  swaps the entries.
\<close>

theorem C9_counterexample:
  "combineRecommendations [] [] [(''x'', 1)] [(''y'', 1)] 1 1
     \<noteq> combineRecommendations [] [] [(''y'', 1)] [(''x'', 1)] 1 1"
  by (simp add: combineRecommendations_def iterate_def std_sort_def by_score_def)

section \<open>Properties of recommendContentBased\<close>

lemma score_loop_map:
  "score_loop user config mv mt ws recs =
     recs @ map (\<lambda>w. (work_id w, computeWorkScore user w config mv mt)) ws"
  by (induction ws arbitrary: recs) simp_all

lemma Max_insert_if:
  fixes a v :: real
  assumes "finite S"
  shows "Max (insert (if a < v then v else a) S) = Max (insert a (insert v S))"
proof -
  have m: "(if a < v then v else a) = max a v" by (simp add: max_def)
  show ?thesis
  proof (cases "S = {}")
    case True
    then show ?thesis by (simp add: m)
  next
    case False
    then show ?thesis using assms by (simp add: m max.assoc)
  qed
qed

lemma max_loop_Max:
  "max_loop ws (a, b) =
     (Max (insert a (viewCount ` set ws)), Max (insert b (interactionTime ` set ws)))"
proof (induction ws arbitrary: a b)
  case Nil
  show ?case by simp
next
  case (Cons w ws)
  have v: "Max (insert (if a < viewCount w then viewCount w else a) (viewCount ` set ws))
             = Max (insert a (insert (viewCount w) (viewCount ` set ws)))"
    by (rule Max_insert_if) simp
  have t: "Max (insert (if b < interactionTime w then interactionTime w else b)
                  (interactionTime ` set ws))
             = Max (insert b (insert (interactionTime w) (interactionTime ` set ws)))"
    by (rule Max_insert_if) simp
  show ?case
    by (simp only: max_loop.simps Cons.IH v t list.set image_insert)
qed

lemma Max_insert0_spec_max:
  assumes "\<forall>x\<in>set xs. 0 \<le> f x"
  shows "Max (insert 0 (f ` set xs)) = spec_max f xs"
proof (cases "xs = []")
  case True
  then show ?thesis by (simp add: spec_max_def)
next
  case False
  then have ne: "f ` set xs \<noteq> {}" by simp
  have "0 \<le> Max (f ` set xs)"
    using assms ne by (simp add: Max_ge_iff) (meson False last_in_set)
  then show ?thesis using ne False by (simp add: spec_max_def)
qed

lemma spec_max_nonneg: "\<forall>x\<in>set xs. 0 \<le> f x \<Longrightarrow> 0 \<le> spec_max f xs"
  using Max_insert0_spec_max [of xs f] Max_ge [of "insert 0 (f ` set xs)" 0] by simp

lemma computeWorkScore_spec:
  assumes "0 \<le> spec_max viewCount works" and "0 \<le> spec_max interactionTime works"
  shows "computeWorkScore user w config (spec_max viewCount works)
           (spec_max interactionTime works) = spec_score user works config w"
  using assms by (auto simp: computeWorkScore_def spec_score_def Let_def)

lemma recommendContentBased_mset:
  "mset (recommendContentBased ties user works config) =
     mset (map (\<lambda>w. (work_id w, computeWorkScore user w config
                 (Max (insert 0 (viewCount ` set works)))
                 (Max (insert 0 (interactionTime ` set works))))) works)"
  by (simp add: recommendContentBased_def max_loop_Max score_loop_map mset_std_sort)

lemma recommendContentBased_sorted:
  "sorted_wrt (\<lambda>a b. snd b \<le> snd a) (recommendContentBased ties user works config)"
  by (simp add: recommendContentBased_def max_loop_Max sorted_std_sort)

lemma recommendContentBased_ids:
  "mset (map fst (recommendContentBased ties user works config)) = mset (map work_id works)"
proof -
  have "mset (map fst (recommendContentBased ties user works config))
          = image_mset fst (mset (recommendContentBased ties user works config))"
    by simp
  also have "\<dots> = mset (map work_id works)"
    unfolding recommendContentBased_mset by (simp add: image_mset.compositionality comp_def)
  finally show ?thesis .
qed

lemma cosineSimilarity_metrics:
  "cosineSimilarity user (w\<lparr>viewCount := v, interactionTime := t\<rparr>) = cosineSimilarity user w"
  by (simp add: cosineSimilarity_def)

lemma computeWorkScore_no_metrics:
  "\<not> useMetrics config \<Longrightarrow>
   computeWorkScore user w config mv mt = weightTags config * cosineSimilarity user w"
  by (simp add: computeWorkScore_def)

text \<open>
  C4: recommendContentBased returns one entry per catalog item, as many entries as
  the catalog has works and none for the empty catalog. For a catalog of the data
  model (view counts and interaction times not negative) the entry of an item is its
  id with the score of the specification: weightTags * cosineSimilarity, plus, with
  useMetrics, weightViews * viewCount / maxViews + weightTime * interactionTime /
  maxTime, the maxima taken over the whole catalog and a term being 0 when its
  maximum is 0. Without useMetrics the score is weightTags * cosineSimilarity, and
  replacing the view counts and interaction times of the catalog by any others
  leaves the returned list unchanged.
\<close>

theorem C4_content_scores:
  "((\<forall>w\<in>set works. 0 \<le> viewCount w \<and> 0 \<le> interactionTime w) \<longrightarrow>
      mset (recommendContentBased ties user works config) =
        mset (map (\<lambda>w. (work_id w, spec_score user works config w)) works))
   \<and> length (recommendContentBased ties user works config) = length works
   \<and> recommendContentBased ties user [] config = []
   \<and> (\<not> useMetrics config \<longrightarrow>
        mset (recommendContentBased ties user works config) =
          mset (map (\<lambda>w. (work_id w, weightTags config * cosineSimilarity user w)) works)
        \<and> recommendContentBased ties user
            (map (\<lambda>w. w\<lparr>viewCount := views w, interactionTime := time w\<rparr>) works) config
          = recommendContentBased ties user works config)"
proof (intro conjI impI)
  assume nn: "\<forall>w\<in>set works. 0 \<le> viewCount w \<and> 0 \<le> interactionTime w"
  then have v: "\<forall>w\<in>set works. 0 \<le> viewCount w" and t: "\<forall>w\<in>set works. 0 \<le> interactionTime w"
    by simp_all
  show "mset (recommendContentBased ties user works config) =
        mset (map (\<lambda>w. (work_id w, spec_score user works config w)) works)"
    unfolding recommendContentBased_mset Max_insert0_spec_max [OF v] Max_insert0_spec_max [OF t]
    by (simp only: computeWorkScore_spec [OF spec_max_nonneg [OF v] spec_max_nonneg [OF t]])
next
  have "size (mset (recommendContentBased ties user works config)) = length works"
    unfolding recommendContentBased_mset by simp
  then show "length (recommendContentBased ties user works config) = length works"
    by simp
next
  show "recommendContentBased ties user [] config = []"
    by (simp add: recommendContentBased_def std_sort_def)
next
  assume nm: "\<not> useMetrics config"
  show "mset (recommendContentBased ties user works config) =
          mset (map (\<lambda>w. (work_id w, weightTags config * cosineSimilarity user w)) works)"
    unfolding recommendContentBased_mset by (simp only: computeWorkScore_no_metrics [OF nm])
next
  assume nm: "\<not> useMetrics config"
  show "recommendContentBased ties user
            (map (\<lambda>w. w\<lparr>viewCount := views w, interactionTime := time w\<rparr>) works) config
          = recommendContentBased ties user works config"
    by (simp add: recommendContentBased_def score_loop_map computeWorkScore_no_metrics [OF nm]
        cosineSimilarity_metrics comp_def split: prod.splits)
qed

theorem C4_content_scores_witness:
  "mset (recommendContentBased [1]
      \<lparr>user_tags = [\<lparr>tag_name = ''scifi'', tag_value = 1\<rparr>]\<rparr>
      [\<lparr>work_id = ''A'', work_tags = [\<lparr>tag_name = ''scifi'', tag_value = 1\<rparr>],
         viewCount = 100, interactionTime = 50\<rparr>,
       \<lparr>work_id = ''B'', work_tags = [\<lparr>tag_name = ''fantasy'', tag_value = 1\<rparr>],
         viewCount = 10, interactionTime = 5\<rparr>]
      \<lparr>useMetrics = True, weightViews = 0.1, weightTime = 0.1, weightTags = 1\<rparr>)
     = {#(''A'', 1.2), (''B'', 0.02)#}
   \<and> mset (recommendContentBased [1]
      \<lparr>user_tags = [\<lparr>tag_name = ''scifi'', tag_value = 1\<rparr>]\<rparr>
      [\<lparr>work_id = ''A'', work_tags = [\<lparr>tag_name = ''scifi'', tag_value = 1\<rparr>],
         viewCount = 100, interactionTime = 50\<rparr>,
       \<lparr>work_id = ''B'', work_tags = [\<lparr>tag_name = ''fantasy'', tag_value = 1\<rparr>],
         viewCount = 10, interactionTime = 5\<rparr>]
      \<lparr>useMetrics = False, weightViews = 0.1, weightTime = 0.1, weightTags = 1\<rparr>)
     = {#(''A'', 1), (''B'', 0)#}"
  using C4_content_scores [of
      "[\<lparr>work_id = ''A'', work_tags = [\<lparr>tag_name = ''scifi'', tag_value = 1\<rparr>],
         viewCount = 100, interactionTime = 50\<rparr>,
       \<lparr>work_id = ''B'', work_tags = [\<lparr>tag_name = ''fantasy'', tag_value = 1\<rparr>],
         viewCount = 10, interactionTime = 5\<rparr>]" "[1]"
      "\<lparr>user_tags = [\<lparr>tag_name = ''scifi'', tag_value = 1\<rparr>]\<rparr>"
      "\<lparr>useMetrics = True, weightViews = 0.1, weightTime = 0.1, weightTags = 1\<rparr>"]
    C4_content_scores [of
      "[\<lparr>work_id = ''A'', work_tags = [\<lparr>tag_name = ''scifi'', tag_value = 1\<rparr>],
         viewCount = 100, interactionTime = 50\<rparr>,
       \<lparr>work_id = ''B'', work_tags = [\<lparr>tag_name = ''fantasy'', tag_value = 1\<rparr>],
         viewCount = 10, interactionTime = 5\<rparr>]" "[1]"
      "\<lparr>user_tags = [\<lparr>tag_name = ''scifi'', tag_value = 1\<rparr>]\<rparr>"
      "\<lparr>useMetrics = False, weightViews = 0.1, weightTime = 0.1, weightTags = 1\<rparr>"]
  by (simp add: spec_score_def spec_max_def cosineSimilarity_def)

text \<open>
  C7: the lists returned by recommendContentBased, recommendCollaborative and
  combineRecommendations are sorted by non-increasing score; those of
  recommendCollaborative and combineRecommendations hold no item id twice, and that
  of recommendContentBased holds none twice when the catalog's ids are unique.
\<close>

theorem C7_sorted_no_duplicates:
  "sorted_wrt (\<lambda>a b. snd b \<le> snd a) (recommendContentBased ties user works config)
   \<and> (distinct (map work_id works) \<longrightarrow>
        distinct (map fst (recommendContentBased ties user works config)))
   \<and> sorted_wrt (\<lambda>a b. snd b \<le> snd a) (recommendCollaborative ord ties peers)
   \<and> distinct (map fst (recommendCollaborative ord ties peers))
   \<and> sorted_wrt (\<lambda>a b. snd b \<le> snd a)
        (combineRecommendations ord ties contentRecs collabRecs contentWeight collabWeight)
   \<and> distinct (map fst
        (combineRecommendations ord ties contentRecs collabRecs contentWeight collabWeight))"
proof (intro conjI impI)
  show "sorted_wrt (\<lambda>a b. snd b \<le> snd a) (recommendContentBased ties user works config)"
    by (rule recommendContentBased_sorted)
  show "sorted_wrt (\<lambda>a b. snd b \<le> snd a) (recommendCollaborative ord ties peers)"
    unfolding recommendCollaborative_def Let_def by (rule sorted_std_sort)
  show "distinct (map fst (recommendCollaborative ord ties peers))"
    unfolding recommendCollaborative_def Let_def
    by (rule distinct_sorted_iterate) (simp add: distinct_users_loop)
  show "sorted_wrt (\<lambda>a b. snd b \<le> snd a)
        (combineRecommendations ord ties contentRecs collabRecs contentWeight collabWeight)"
    by (rule sorted_combineRecommendations)
  show "distinct (map fst
        (combineRecommendations ord ties contentRecs collabRecs contentWeight collabWeight))"
    by (rule distinct_combineRecommendations)
next
  assume "distinct (map work_id works)"
  then show "distinct (map fst (recommendContentBased ties user works config))"
    using recommendContentBased_ids [of ties user works config]
    by (metis distinct_count_atmost_1 set_mset_mset)
qed

theorem C7_sorted_no_duplicates_witness:
  "distinct (map fst (recommendContentBased [1]
      \<lparr>user_tags = [\<lparr>tag_name = ''scifi'', tag_value = 1\<rparr>]\<rparr>
      [\<lparr>work_id = ''A'', work_tags = [\<lparr>tag_name = ''scifi'', tag_value = 1\<rparr>],
         viewCount = 100, interactionTime = 50\<rparr>,
       \<lparr>work_id = ''B'', work_tags = [\<lparr>tag_name = ''fantasy'', tag_value = 1\<rparr>],
         viewCount = 10, interactionTime = 5\<rparr>]
      \<lparr>useMetrics = True, weightViews = 0.1, weightTime = 0.1, weightTags = 1\<rparr>))
   \<and> sorted_wrt (\<lambda>a b. snd b \<le> snd a) (recommendContentBased [1]
      \<lparr>user_tags = [\<lparr>tag_name = ''scifi'', tag_value = 1\<rparr>]\<rparr>
      [\<lparr>work_id = ''A'', work_tags = [\<lparr>tag_name = ''scifi'', tag_value = 1\<rparr>],
         viewCount = 100, interactionTime = 50\<rparr>,
       \<lparr>work_id = ''B'', work_tags = [\<lparr>tag_name = ''fantasy'', tag_value = 1\<rparr>],
         viewCount = 10, interactionTime = 5\<rparr>]
      \<lparr>useMetrics = True, weightViews = 0.1, weightTime = 0.1, weightTags = 1\<rparr>)"
  using C7_sorted_no_duplicates [of "[1]"
      "\<lparr>user_tags = [\<lparr>tag_name = ''scifi'', tag_value = 1\<rparr>]\<rparr>"
      "[\<lparr>work_id = ''A'', work_tags = [\<lparr>tag_name = ''scifi'', tag_value = 1\<rparr>],
         viewCount = 100, interactionTime = 50\<rparr>,
       \<lparr>work_id = ''B'', work_tags = [\<lparr>tag_name = ''fantasy'', tag_value = 1\<rparr>],
         viewCount = 10, interactionTime = 5\<rparr>]"
      "\<lparr>useMetrics = True, weightViews = 0.1, weightTime = 0.1, weightTags = 1\<rparr>"]
  by simp

section \<open>Properties of getRandomizedRecommendations\<close>

lemma sint_int32:
  "- (2 ^ 31) \<le> t \<Longrightarrow> t < 2 ^ 31 \<Longrightarrow> sint (word_of_int t :: 32 word) = t"
  by (simp add: sint_sbintrunc' signed_take_bit_int_eq_self)

lemma sint_minus32:
  "- (2 ^ 31) \<le> sint a - sint b \<Longrightarrow> sint a - sint b < 2 ^ 31 \<Longrightarrow>
   sint (a - b :: 32 word) = sint a - sint b"
  by (simp add: sint_word_diff signed_take_bit_int_eq_self)

lemma sint32_range: "- (2 ^ 31) \<le> sint (k :: 32 word) \<and> sint k < 2 ^ 31"
  using sint_ge [of k] sint_lt [of k] by simp

lemma size_t_of_int_nonneg:
  assumes "0 \<le> sint k"
  shows "size_t_of_int k = nat (sint k)"
proof -
  have "(2::int) ^ 31 \<le> 2 ^ 64" by (rule power_increasing) simp_all
  then have lt: "sint k < 2 ^ 64" using sint32_range [of k] by linarith
  have tb: "take_bit 64 (sint k) = sint k"
    by (rule take_bit_int_eq_self [OF assms lt])
  have "uint (word_of_int (sint k) :: 64 word) = take_bit LENGTH(64) (sint k)"
    by (rule uint_word_of_int_eq)
  also have "LENGTH(64) = 64" by simp
  finally have "uint (word_of_int (sint k) :: 64 word) = sint k"
    by (simp only: tb)
  then show ?thesis
    by (simp only: size_t_of_int_def scast_eq unat_eq_nat_uint)
qed

lemma int_of_size_t_le: "int_of_size_t n \<le> int n"
proof -
  have "int_of_size_t n = sint (word_of_int (int n) :: 32 word)"
    by (simp only: int_of_size_t_def of_int_of_nat_eq)
  also have "\<dots> = signed_take_bit (LENGTH(32) - Suc 0) (uint (word_of_int (int n) :: 32 word))"
    by (rule sint_uint)
  also have "uint (word_of_int (int n) :: 32 word) = take_bit LENGTH(32) (int n)"
    by (rule uint_word_of_int_eq)
  finally have "int_of_size_t n = signed_take_bit 31 (take_bit 32 (int n))"
    by simp
  also have "\<dots> \<le> take_bit 32 (int n)"
  proof -
    have "0 \<le> take_bit 32 (int n)" by simp
    moreover have "- (2 ^ 31) \<le> (0::int)" by simp
    ultimately have "- (2 ^ 31) \<le> take_bit 32 (int n)" by (rule order_trans [rotated])
    then show ?thesis by (simp only: signed_take_bit_int_less_eq_self_iff)
  qed
  also have "\<dots> \<le> int n"
    by (simp add: take_bit_int_less_eq_self_iff)
  finally show ?thesis .
qed

lemma int_of_size_t_small: "n < 2 ^ 31 \<Longrightarrow> int_of_size_t n = int n"
proof -
  assume "n < 2 ^ 31"
  then have "int n < 2 ^ 31" by (metis of_nat_less_iff of_nat_numeral of_nat_power)
  then have "sint (word_of_int (int n) :: 32 word) = int n"
    by (intro sint_int32) simp_all
  then show ?thesis by (simp add: int_of_size_t_def)
qed

lemma top_loop_take: "top_loop recs k i acc = acc @ take (k - i) (drop i recs)"
proof (induction recs k i acc rule: top_loop.induct)
  case (1 recs k i acc)
  show ?case
  proof (cases "i < k \<and> i < length recs")
    case True
    then have "take (k - i) (drop i recs) = recs ! i # take (k - Suc i) (drop (Suc i) recs)"
      by (metis Cons_nth_drop_Suc Suc_diff_Suc take_Suc_Cons)
    with True "1.IH" show ?thesis by (subst top_loop.simps) simp
  next
    case False
    then show ?thesis by (subst top_loop.simps) auto
  qed
qed

lemma copy_loop_take:
  "0 \<le> i \<Longrightarrow>
   copy_loop src bound i dst =
     dst @ take (nat (min bound (int_of_size_t (length src)) - i)) (drop (nat i) src)"
proof (induction src bound i dst rule: copy_loop.induct)
  case (1 src bound i dst)
  let ?L = "int_of_size_t (length src)"
  show ?case
  proof (cases "i < bound \<and> i < ?L")
    case True
    then have lt: "nat i < length src"
      using int_of_size_t_le [of "length src"] "1.prems" by linarith
    have n: "nat (min bound ?L - i) = Suc (nat (min bound ?L - (i + 1)))"
      using True by linarith
    have s: "nat (i + 1) = Suc (nat i)" using "1.prems" by linarith
    have "take (nat (min bound ?L - i)) (drop (nat i) src)
            = src ! nat i # take (nat (min bound ?L - (i + 1))) (drop (nat (i + 1)) src)"
      unfolding n s using lt by (metis Cons_nth_drop_Suc take_Suc_Cons)
    moreover have "copy_loop src bound (i + 1) (dst @ [src ! nat i]) =
        (dst @ [src ! nat i]) @
          take (nat (min bound ?L - (i + 1))) (drop (nat (i + 1)) src)"
      using "1.IH" [OF True] "1.prems" by simp
    ultimately show ?thesis using True by (subst copy_loop.simps) simp
  next
    case False
    then have "nat (min bound ?L - i) = 0" by linarith
    with False show ?thesis by (subst copy_loop.simps) auto
  qed
qed

lemma copy_loop_from_0:
  "copy_loop src bound 0 dst = dst @ take (nat (min bound (int_of_size_t (length src)))) src"
  using copy_loop_take [of 0 src bound dst] by simp




lemma mset_shuffle: "mset (fst (shuffle v g)) = mset v"
  by (simp add: shuffle_def mset_rearrange)

lemma numRandom_bounds:
  assumes "0 < sint n" and "0 \<le> rf" and "rf \<le> 1"
  shows "0 \<le> numRandom_of n rf" and "numRandom_of n rf \<le> sint n"
proof -
  have "0 \<le> real_of_int (sint n) * rf"
    using assms by (intro mult_nonneg_nonneg) (simp_all del: of_int_sint)
  then show "0 \<le> numRandom_of n rf" by (simp add: numRandom_of_def del: of_int_sint)
  have "real_of_int (sint n) * rf \<le> real_of_int (sint n) * 1"
    using assms by (intro mult_left_mono) (simp_all del: of_int_sint)
  then have "\<lfloor>real_of_int (sint n) * rf\<rfloor> \<le> \<lfloor>real_of_int (sint n)\<rfloor>"
    by (intro floor_mono) (simp del: of_int_sint)
  then show "numRandom_of n rf \<le> sint n"
    by (simp add: numRandom_of_def del: of_int_sint)
qed

lemma randomized_steps:
  assumes n: "0 < sint n" and rf: "0 \<le> rf" "rf \<le> 1"
  shows "getRandomizedRecommendations recs n rf g =
     (let finalRecs = take (nat (numTop_of n rf)) recs;
          remaining = copy_loop recs (numTop_of n rf) 0 [];
          (remaining, g) = shuffle remaining g;
          finalRecs = copy_loop remaining (numRandom_of n rf) 0 finalRecs;
          (finalRecs, g) = shuffle finalRecs g
      in Inr finalRecs)"
proof -
  let ?R = "numRandom_of n rf"
  let ?T = "numTop_of n rf"
  have R0: "0 \<le> ?R" and RN: "?R \<le> sint n"
    using numRandom_bounds [OF n rf] by simp_all
  have N: "sint n < 2 ^ 31" using sint32_range [of n] by simp
  have Rr: "- (2 ^ 31) \<le> ?R" "?R < 2 ^ 31"
    using R0 RN N by linarith+
  have x0: "0 \<le> real_of_int (sint n) * rf"
    using n rf by (intro mult_nonneg_nonneg) (simp_all del: of_int_sint)
  have sc: "static_cast_int (real_of_int (sint n) * rf) = Inr (word_of_int ?R)"
    using Rr x0 by (simp add: static_cast_int_def numRandom_of_def del: of_int_sint)
  have sR: "sint (word_of_int ?R :: 32 word) = ?R"
    by (rule sint_int32 [OF Rr])
  have Tr: "- (2 ^ 31) \<le> sint n - ?R" "sint n - ?R < 2 ^ 31"
    using R0 RN N by linarith+
  have im: "int_minus n (word_of_int ?R) = Inr (n - word_of_int ?R)"
    using Tr by (simp add: int_minus_def sR)
  have sT: "sint (n - word_of_int ?R) = ?T"
    using sint_minus32 [of n "word_of_int ?R"] Tr by (simp add: sR numTop_of_def)
  have T0: "0 \<le> ?T" using RN by (simp add: numTop_of_def)
  have st: "size_t_of_int (n - word_of_int ?R) = nat ?T"
    using size_t_of_int_nonneg [of "n - word_of_int ?R"] T0 by (simp add: sT)
  have pos: "\<not> n \<le>s 0" using n by (simp add: word_sle_eq)
  show ?thesis
    unfolding getRandomizedRecommendations_def
    by (simp only: pos if_False sc im sum.case st sT sR top_loop_take
        minus_nat.diff_0 drop_0 append_Nil)
qed

lemma randomized_shape:
  assumes n: "0 < sint n" and rf: "0 \<le> rf" "rf \<le> 1"
  shows "\<exists>picked out. getRandomizedRecommendations recs n rf g = Inr out
      \<and> mset out = mset (take (nat (numTop_of n rf)) recs) + mset picked
      \<and> set picked \<subseteq> set (take (nat (numTop_of n rf)) recs)
      \<and> int (length picked) \<le> numRandom_of n rf"
proof -
  let ?R = "numRandom_of n rf"
  let ?T = "numTop_of n rf"
  have R0: "0 \<le> ?R" using numRandom_bounds [OF n rf] by simp
  define top where "top = take (nat ?T) recs"
  define rem0 where "rem0 = take (nat (min ?T (int_of_size_t (length recs)))) recs"
  obtain rem1 g1 where s1: "shuffle rem0 g = (rem1, g1)" by (cases "shuffle rem0 g")
  define picked where "picked = take (nat (min ?R (int_of_size_t (length rem1)))) rem1"
  obtain out g2 where s2: "shuffle (top @ picked) g1 = (out, g2)"
    by (cases "shuffle (top @ picked) g1")
  have res: "getRandomizedRecommendations recs n rf g = Inr out"
    unfolding randomized_steps [OF n rf] copy_loop_from_0 Let_def
    using s1 s2 by (simp add: top_def rem0_def picked_def)
  have m: "mset out = mset top + mset picked"
    using mset_shuffle [of "top @ picked" g1] s2 by simp
  have "set rem1 = set rem0"
    using mset_shuffle [of rem0 g] s1 by (metis fst_conv set_mset_mset)
  moreover have "set rem0 \<subseteq> set top"
    unfolding rem0_def top_def by (rule set_take_subset_set_take) simp
  moreover have "set picked \<subseteq> set rem1"
    unfolding picked_def by (rule set_take_subset)
  ultimately have sub: "set picked \<subseteq> set top" by blast
  have "length picked \<le> nat (min ?R (int_of_size_t (length rem1)))"
    unfolding picked_def by simp
  then have len: "int (length picked) \<le> ?R" using R0 by linarith
  show ?thesis using res m sub len unfolding top_def by blast
qed

lemma sless_pos: "0 <s n \<longleftrightarrow> 0 < sint n"
  by (simp add: word_sless_alt)

lemma numRandom_of_0: "numRandom_of n 0 = 0"
  by (simp add: numRandom_of_def)

lemma numRandom_of_1: "numRandom_of n 1 = sint n"
  by (simp add: numRandom_of_def del: of_int_sint)

text \<open>
  C1: for numRecommendations > 0 and randomFactor in [0,1], whatever the generator
  draws, getRandomizedRecommendations returns a list (no fault) whose every entry is
  among the first numTop entries of the input, numTop = numRecommendations -
  floor(numRecommendations * randomFactor); with randomFactor = 0 the returned
  entries are exactly the first numRecommendations entries of the input, as a set and
  as a multiset.
\<close>

theorem C1_drawn_from_top_slice:
  assumes "0 <s numRecommendations" and "0 \<le> randomFactor" and "randomFactor \<le> 1"
  shows "\<exists>out. getRandomizedRecommendations recs numRecommendations randomFactor g = Inr out
      \<and> set out \<subseteq> set (take (nat (numTop_of numRecommendations randomFactor)) recs)
      \<and> (randomFactor = 0 \<longrightarrow>
            set out = set (take (nat (sint numRecommendations)) recs)
          \<and> mset out = mset (take (nat (sint numRecommendations)) recs))"
proof -
  have n: "0 < sint numRecommendations" using assms(1) by (simp only: sless_pos)
  obtain picked out where
    res: "getRandomizedRecommendations recs numRecommendations randomFactor g = Inr out"
    and m: "mset out = mset (take (nat (numTop_of numRecommendations randomFactor)) recs)
              + mset picked"
    and sub: "set picked \<subseteq> set (take (nat (numTop_of numRecommendations randomFactor)) recs)"
    and len: "int (length picked) \<le> numRandom_of numRecommendations randomFactor"
    using randomized_shape [OF n assms(2,3), of recs g] by blast
  have "set out = set (take (nat (numTop_of numRecommendations randomFactor)) recs) \<union> set picked"
    using m by (metis set_mset_mset set_mset_union)
  then have s: "set out \<subseteq> set (take (nat (numTop_of numRecommendations randomFactor)) recs)"
    using sub by blast
  have z: "randomFactor = 0 \<longrightarrow>
            set out = set (take (nat (sint numRecommendations)) recs)
          \<and> mset out = mset (take (nat (sint numRecommendations)) recs)"
  proof
    assume r0: "randomFactor = 0"
    then have "picked = []" using len by (simp add: numRandom_of_0)
    then have "mset out = mset (take (nat (sint numRecommendations)) recs)"
      using m r0 by (simp add: numTop_of_def numRandom_of_0)
    then show "set out = set (take (nat (sint numRecommendations)) recs)
          \<and> mset out = mset (take (nat (sint numRecommendations)) recs)"
      by (metis set_mset_mset)
  qed
  show ?thesis using res s z by blast
qed

theorem C1_drawn_from_top_slice_witness:
  "(\<exists>out. getRandomizedRecommendations [(''a'', 3), (''b'', 2), (''c'', 1)] 2 (1 / 2) [1, 0, 3]
             = Inr out \<and> set out \<subseteq> {(''a'', 3)})
   \<and> (\<exists>out. getRandomizedRecommendations [(''a'', 3), (''b'', 2), (''c'', 1)] 2 0 [1, 0, 3]
             = Inr out \<and> set out = {(''a'', 3), (''b'', 2)})"
  using C1_drawn_from_top_slice [of 2 "1 / 2" "[(''a'', 3), (''b'', 2), (''c'', 1)]" "[1, 0, 3]"]
    C1_drawn_from_top_slice [of 2 0 "[(''a'', 3), (''b'', 2), (''c'', 1)]" "[1, 0, 3]"]
  by (auto simp: numTop_of_def numRandom_of_def word_sless_alt)

text \<open>
  C10: for numRecommendations > 0 and randomFactor = 1, getRandomizedRecommendations
  returns the empty list for every input list and every generator.
\<close>

theorem C10_all_random_returns_nothing:
  assumes "0 <s numRecommendations"
  shows "getRandomizedRecommendations recs numRecommendations 1 g = Inr []"
proof -
  have n: "0 < sint numRecommendations" using assms by (simp only: sless_pos)
  have T: "numTop_of numRecommendations 1 = 0"
    by (simp add: numTop_of_def numRandom_of_1)
  have "getRandomizedRecommendations recs numRecommendations 1 g =
     (let finalRecs = take (nat (numTop_of numRecommendations 1)) recs;
          remaining = copy_loop recs (numTop_of numRecommendations 1) 0 [];
          (remaining, g) = shuffle remaining g;
          finalRecs = copy_loop remaining (numRandom_of numRecommendations 1) 0 finalRecs;
          (finalRecs, g) = shuffle finalRecs g
      in Inr finalRecs)"
    by (rule randomized_steps [OF n]) simp_all
  then show ?thesis
    by (simp add: T copy_loop_from_0 shuffle_def)
qed

theorem C10_all_random_returns_nothing_witness:
  "getRandomizedRecommendations [(''a'', 3), (''b'', 2), (''c'', 1)] 2 1 [1, 0, 3] = Inr []"
  using C10_all_random_returns_nothing [of 2 "[(''a'', 3), (''b'', 2), (''c'', 1)]" "[1, 0, 3]"]
  by (simp add: word_sless_alt)




end
